theory Spec2Isabelle
  imports Complex_Main "HOL-Library.Word" "HOL-Library.Signed_Division"
begin

unbundle bit_operations_syntax

section \<open>Machine types of \<^verbatim>\<open>hal_modbus.c\<close>\<close>

text \<open>
  \<^verbatim>\<open>unsigned char\<close> is an 8-bit word, \<^verbatim>\<open>unsigned short\<close> and \<^verbatim>\<open>uint16_t\<close> a 16-bit
  word, \<^verbatim>\<open>int\<close> a 32-bit word read with \<open>sint\<close>, \<^verbatim>\<open>DWORD\<close> a 32-bit word read with
  \<open>unat\<close>. Integer promotion of an unsigned narrow value is \<open>ucast\<close> (zero extension),
  a narrowing cast is \<open>ucast\<close> too (truncation).
\<close>

type_synonym byte = "8 word"
type_synonym ushort = "16 word"
type_synonym c_int = "32 word"
type_synonym dword = "32 word"

section \<open>CRC16 (\<^verbatim>\<open>crc16\<close>, lines 131--147)\<close>

text \<open>
  The inner loop \<^verbatim>\<open>for (int i = 8; i != 0; i--)\<close>: the counter only counts the rounds,
  each round tests the low bit, shifts right by one and feeds 0xA001 back.
\<close>

fun crc16_bits :: "nat \<Rightarrow> ushort \<Rightarrow> ushort" where
  "crc16_bits 0 crc = crc"
| "crc16_bits (Suc i) crc =
     crc16_bits i (if crc AND 0x0001 \<noteq> 0 then drop_bit 1 crc XOR 0xA001 else drop_bit 1 crc)"

text \<open>
  The outer loop over \<^verbatim>\<open>buffer[0 .. buffer_length - 1]\<close>; the list is exactly that
  range of the buffer.
\<close>

fun crc16_bytes :: "byte list \<Rightarrow> ushort \<Rightarrow> ushort" where
  "crc16_bytes [] crc = crc"
| "crc16_bytes (b # buffer) crc = crc16_bytes buffer (crc16_bits 8 (crc XOR ucast b))"

definition crc16 :: "byte list \<Rightarrow> ushort" where
  "crc16 buffer = crc16_bytes buffer 0xFFFF"

subsection \<open>The CRC of the specification, section 4.1\<close>

text \<open>
  Written from the words of the specification, on natural numbers: start from 0xFFFF;
  for each input byte, XOR it into the low byte of the running value, then eight times:
  shift right by one (halve) and XOR with 0xA001 whenever the bit shifted out
  (the remainder modulo 2) is 1.
\<close>

fun crc16_shift_spec :: "nat \<Rightarrow> nat \<Rightarrow> nat" where
  "crc16_shift_spec 0 c = c"
| "crc16_shift_spec (Suc i) c =
     crc16_shift_spec i (if c mod 2 = 1 then (c div 2) XOR 0xA001 else c div 2)"

definition crc16_spec :: "nat list \<Rightarrow> nat" where
  "crc16_spec bs = foldl (\<lambda>c b. crc16_shift_spec 8 (c XOR b)) 0xFFFF bs"

section \<open>Request frame (lines 219--230 and 372--383)\<close>

text \<open>
  \<^verbatim>\<open>modbus_read_temperature\<close> and \<^verbatim>\<open>modbus_read_pressure\<close> build the request with the
  same eight assignments. \<^verbatim>\<open>reg >> 8\<close> on an \<^verbatim>\<open>int\<close> is an arithmetic shift.
\<close>

definition build_request :: "c_int \<Rightarrow> c_int \<Rightarrow> byte list" where
  "build_request addr reg =
     (let request = [ucast addr, 0x03, ucast (signed_drop_bit 8 reg), ucast (reg AND 0xFF),
                     0x00, 0x01];
          crc = crc16 (take 6 request)
      in request @ [ucast (crc AND 0xFF), ucast (drop_bit 8 crc AND 0xFF)])"

section \<open>Failure modes\<close>

text \<open>
  The C functions return \<^verbatim>\<open>-1.0f\<close> from every failing branch and tell the branches
  apart by the diagnostic they print. The model names each branch with the error of the
  specification's taxonomy:
  \<^item> \<open>TransportUnavailable\<close>: the port cannot be opened or configured;
  \<^item> \<open>WriteFailed\<close>: \<^verbatim>\<open>"Failed to write to serial port"\<close>;
  \<^item> \<open>IncompleteResponse\<close>: \<^verbatim>\<open>"Failed to read from serial port or timeout"\<close>;
  \<^item> \<open>UnexpectedEcho\<close>: \<^verbatim>\<open>"Invalid response (expected addr=.. func=03 ..)"\<close>;
  \<^item> \<open>UnexpectedByteCount\<close>: \<^verbatim>\<open>"Invalid data length in response"\<close>;
  \<^item> \<open>ShortResponse\<close> and \<open>NotConnected\<close> are produced by no branch of the two sensor
    functions; \<open>ShortResponse\<close> is used by the parser of the specification below.
\<close>

datatype error =
    TransportUnavailable
  | NotConnected
  | WriteFailed
  | IncompleteResponse
  | ShortResponse
  | UnexpectedEcho
  | UnexpectedByteCount

section \<open>The serial port as seen by one sensor read\<close>

text \<open>
  The Windows calls are not part of the repository; their results are parameters.
  \<^item> \<open>port_opens\<close>: \<^verbatim>\<open>CreateFileA\<close>, \<^verbatim>\<open>GetCommState\<close>, \<^verbatim>\<open>SetCommState\<close> and
    \<^verbatim>\<open>SetCommTimeouts\<close> all succeed;
  \<^item> \<open>write_file frame\<close>: \<open>None\<close> when \<^verbatim>\<open>WriteFile\<close> returns FALSE, else
    \<^verbatim>\<open>bytes_written\<close>;
  \<^item> \<open>start_tick\<close>: the value of \<^verbatim>\<open>GetTickCount()\<close> stored in \<^verbatim>\<open>start_time\<close>;
  \<^item> \<open>loop_tick k\<close>: the value of \<^verbatim>\<open>GetTickCount()\<close> in the loop test of round \<open>k\<close>;
  \<^item> \<open>read_file k\<close>: the outcome of the \<^verbatim>\<open>ReadFile\<close> call of round \<open>k\<close>: \<open>None\<close> when
    it returns FALSE, else the bytes it stored (\<^verbatim>\<open>bytes_read\<close> is their number).
\<close>

record transport =
  port_opens :: bool
  write_file :: "byte list \<Rightarrow> nat option"
  start_tick :: dword
  loop_tick :: "nat \<Rightarrow> dword"
  read_file :: "nat \<Rightarrow> byte list option"

section \<open>Response reading loop (lines 246--260 and 399--413)\<close>

text \<open>
  \<open>response\<close> is the filled prefix \<^verbatim>\<open>response[0 .. total_read - 1]\<close> of the 256-byte
  buffer, so \<^verbatim>\<open>total_read\<close> is its length. \<^verbatim>\<open>ReadFile\<close> stores at most the
  \<^verbatim>\<open>sizeof(response) - total_read\<close> bytes it is asked for. The subtraction of the tick
  counts is the \<^verbatim>\<open>DWORD\<close> subtraction, which wraps. A loop that never leaves is the
  value \<open>None\<close>.
\<close>

partial_function (option) read_loop :: "transport \<Rightarrow> nat \<Rightarrow> byte list \<Rightarrow> byte list option" where
  "read_loop t k response =
     (if length response < 256 \<and> loop_tick t k - start_tick t < 1000 then
        (case read_file t k of
           Some bytes \<Rightarrow>
             (if take (256 - length response) bytes \<noteq> [] then
                (if 7 \<le> length (response @ take (256 - length response) bytes)
                 then Some (response @ take (256 - length response) bytes)
                 else read_loop t (Suc k) (response @ take (256 - length response) bytes))
              else read_loop t (Suc k) response)
         | None \<Rightarrow> read_loop t (Suc k) response)
      else Some response)"

section \<open>Response checks and decoding (lines 262--295 and 415--448)\<close>

text \<open>
  The checks after the loop, in the order of the source. \<^verbatim>\<open>response[0] != addr\<close>
  compares the promoted byte with the \<^verbatim>\<open>int\<close> parameter. The raw value is
  \<^verbatim>\<open>(response[3] << 8) | response[4]\<close>, computed in \<^verbatim>\<open>int\<close> and stored in an
  \<^verbatim>\<open>unsigned short\<close>. Bytes 0 to 4 are read only after \<^verbatim>\<open>total_read >= 7\<close> is known.
\<close>

definition check_response :: "c_int \<Rightarrow> byte list \<Rightarrow> error + ushort" where
  "check_response addr response =
     (if length response < 7 then Inl IncompleteResponse
      else if ucast (response ! 0) \<noteq> addr \<or> response ! 1 \<noteq> 0x03 then Inl UnexpectedEcho
      else if length response < 5 \<or> response ! 2 \<noteq> 2 then Inl UnexpectedByteCount
      else Inr (ucast (push_bit 8 (ucast (response ! 3) :: c_int) OR ucast (response ! 4))))"

subsection \<open>The parser of the specification, section 4.4\<close>

text \<open>
  Written from the words of the specification: length at least 5, else
  \<open>ShortResponse\<close>; then the echo of address and function code, else \<open>UnexpectedEcho\<close>;
  then byte count 2, else \<open>UnexpectedByteCount\<close>; then the big-endian value.
\<close>

definition parse_register_response :: "byte list \<Rightarrow> c_int \<Rightarrow> error + ushort" where
  "parse_register_response response expected_addr =
     (if length response < 5 then Inl ShortResponse
      else if ucast (response ! 0) \<noteq> expected_addr \<or> response ! 1 \<noteq> 0x03 then Inl UnexpectedEcho
      else if response ! 2 \<noteq> 2 then Inl UnexpectedByteCount
      else Inr (ucast (push_bit 8 (ucast (response ! 3) :: c_int) OR ucast (response ! 4))))"

section \<open>The two sensor reads\<close>

text \<open>
  The part shared by \<^verbatim>\<open>modbus_read_temperature\<close> and \<^verbatim>\<open>modbus_read_pressure\<close>: open the
  port, build and send the request, collect the response, check it.
\<close>

definition modbus_read_raw :: "transport \<Rightarrow> c_int \<Rightarrow> c_int \<Rightarrow> (error + ushort) option" where
  "modbus_read_raw t addr reg =
     (if \<not> port_opens t then Some (Inl TransportUnavailable)
      else if write_file t (build_request addr reg) \<noteq> Some 8 then Some (Inl WriteFailed)
      else map_option (check_response addr) (read_loop t 0 []))"

text \<open>
  The scale \<^verbatim>\<open>raw_temp / 10.0f\<close> and \<^verbatim>\<open>raw_pressure / 100.0f\<close> is modelled by the exact
  quotient. The single-precision quotient of the source is the nearest representable
  value; the two agree wherever the exact quotient is representable.
\<close>

definition temperature_scale :: "ushort \<Rightarrow> real" where
  "temperature_scale raw_temp = real (unat raw_temp) / 10"

definition pressure_scale :: "ushort \<Rightarrow> real" where
  "pressure_scale raw_pressure = real (unat raw_pressure) / 100"

definition modbus_read_temperature :: "transport \<Rightarrow> c_int \<Rightarrow> c_int \<Rightarrow> real option" where
  "modbus_read_temperature t addr reg =
     map_option (\<lambda>r. case r of Inl e \<Rightarrow> - 1 | Inr raw_temp \<Rightarrow> temperature_scale raw_temp)
       (modbus_read_raw t addr reg)"

definition modbus_read_pressure :: "transport \<Rightarrow> c_int \<Rightarrow> c_int \<Rightarrow> real option" where
  "modbus_read_pressure t addr reg =
     map_option (\<lambda>r. case r of Inl e \<Rightarrow> - 1 | Inr raw_pressure \<Rightarrow> pressure_scale raw_pressure)
       (modbus_read_raw t addr reg)"

section \<open>Register session (\<^verbatim>\<open>modbus_t\<close>, lines 8--128)\<close>

text \<open>
  \<^verbatim>\<open>hSerial\<close> is a \<^verbatim>\<open>void*\<close>: NULL, \<^verbatim>\<open>INVALID_HANDLE_VALUE\<close> or the handle of a port.
\<close>

datatype handle = NULL_HANDLE | INVALID_HANDLE_VALUE | Handle nat

record modbus_t =
  device :: string
  baud :: c_int
  slave_id :: c_int
  connected :: c_int
  hSerial :: handle

text \<open>
  A session is passed around as a pointer, and \<^verbatim>\<open>hal_modbus_disconnect\<close> frees it, so
  the model keeps an explicit store: \<open>heap\<close> maps the address of every allocated
  \<^verbatim>\<open>modbus_t\<close> to its contents, \<open>open_handles\<close> is the set of port handles that are
  open, \<open>wire\<close> lists the frames handed to \<^verbatim>\<open>WriteFile\<close> so far. A pointer argument is
  \<open>None\<close> for NULL and \<open>Some p\<close> for the address \<open>p\<close>.

  Reading or freeing through a pointer that is not allocated is undefined behaviour in
  C; the model makes it the outcome \<open>Inl UseAfterFree\<close>. A store outside the
  destination array is \<open>Inl OutOfBounds\<close>.
\<close>

record world =
  heap :: "nat \<rightharpoonup> modbus_t"
  open_handles :: "nat set"
  wire :: "byte list list"

datatype fault = UseAfterFree | OutOfBounds

text \<open>
  \<^verbatim>\<open>hal_modbus_connect\<close>. The results of \<^verbatim>\<open>malloc\<close> (\<open>None\<close> for NULL), of
  \<^verbatim>\<open>CreateFileA\<close> (\<open>None\<close> for \<^verbatim>\<open>INVALID_HANDLE_VALUE\<close>) and of the three configuration
  calls are parameters. \<^verbatim>\<open>strncpy\<close> keeps at most 255 characters of the device name.
  On every failure after \<^verbatim>\<open>malloc\<close> the context is freed again and the handle, if
  one was opened, is closed.
\<close>

definition hal_modbus_connect ::
  "world \<Rightarrow> string \<Rightarrow> c_int \<Rightarrow> c_int \<Rightarrow> nat option \<Rightarrow> nat option \<Rightarrow> bool \<Rightarrow> nat option \<times> world" where
  "hal_modbus_connect w dev baud_rate slave malloc_result create_file_result configured =
     (case malloc_result of
        None \<Rightarrow> (None, w)
      | Some p \<Rightarrow>
          (case create_file_result of
             None \<Rightarrow> (None, w)
           | Some h \<Rightarrow>
               if \<not> configured then (None, w)
               else (Some p,
                     w\<lparr>heap := (heap w)(p \<mapsto>
                          \<lparr>device = take 255 dev, baud = baud_rate, slave_id = slave,
                           connected = 1, hSerial = Handle h\<rparr>),
                       open_handles := insert h (open_handles w)\<rparr>)))"

text \<open>
  \<^verbatim>\<open>hal_modbus_disconnect\<close> (lines 94--103): nothing for NULL; otherwise the device name
  is read for the diagnostic, the handle is closed when it is neither NULL nor
  \<^verbatim>\<open>INVALID_HANDLE_VALUE\<close>, \<^verbatim>\<open>connected\<close> is cleared and the context is freed.
\<close>

definition hal_modbus_disconnect :: "world \<Rightarrow> nat option \<Rightarrow> fault + world" where
  "hal_modbus_disconnect w ctx =
     (case ctx of
        None \<Rightarrow> Inr w
      | Some p \<Rightarrow>
          (case heap w p of
             None \<Rightarrow> Inl UseAfterFree
           | Some c \<Rightarrow>
               Inr (w\<lparr>open_handles :=
                        (case hSerial c of
                           Handle h \<Rightarrow> open_handles w - {h}
                         | _ \<Rightarrow> open_handles w),
                      heap := ((heap w)(p \<mapsto> c\<lparr>connected := 0\<rparr>))(p := None)\<rparr>)))"


text \<open>
  The loop of \<^verbatim>\<open>hal_modbus_read_registers\<close> (lines 123--125). \<open>rnd i\<close> is the value
  returned by the call of \<^verbatim>\<open>rand()\<close> in round \<open>i\<close>, after the seeding by
  \<^verbatim>\<open>srand((unsigned int)time(NULL) + addr)\<close>. \<^verbatim>\<open>%\<close> is the truncating remainder of C,
  \<open>smod\<close>; the cast to \<^verbatim>\<open>uint16_t\<close> is \<open>word_of_int\<close>. \<open>dest\<close> is the caller's array.
\<close>

function fill_registers :: "(nat \<Rightarrow> int) \<Rightarrow> nat \<Rightarrow> c_int \<Rightarrow> ushort list \<Rightarrow> fault + ushort list" where
  "fill_registers rnd i num dest =
     (if int i < sint num then
        (if i < length dest
         then fill_registers rnd (Suc i) num (dest[i := word_of_int (rnd i smod 4000 + 1000)])
         else Inl OutOfBounds)
      else Inr dest)"
  by pat_completeness auto
termination
  by (relation "measure (\<lambda>(rnd, i, num, dest). nat (sint num) - i)") auto

text \<open>
  \<^verbatim>\<open>hal_modbus_read_registers\<close> (lines 115--128) returns the code and the destination
  array as it leaves it; \<open>dest = None\<close> is the NULL pointer.
\<close>

definition hal_modbus_read_registers ::
  "world \<Rightarrow> nat option \<Rightarrow> c_int \<Rightarrow> c_int \<Rightarrow> ushort list option \<Rightarrow> (nat \<Rightarrow> int)
     \<Rightarrow> fault + int \<times> ushort list option" where
  "hal_modbus_read_registers w ctx addr num dest rnd =
     (case ctx of
        None \<Rightarrow> Inr (- 1, dest)
      | Some p \<Rightarrow>
          (case heap w p of
             None \<Rightarrow> Inl UseAfterFree
           | Some c \<Rightarrow>
               if connected c = 0 then Inr (- 1, dest)
               else (case dest of
                       None \<Rightarrow> Inr (- 1, None)
                     | Some d \<Rightarrow>
                         (case fill_registers rnd 0 num d of
                            Inl f \<Rightarrow> Inl f
                          | Inr d' \<Rightarrow> Inr (0, Some d')))))"

text \<open>The world before any session exists: nothing allocated, no port open, nothing sent.\<close>

definition initial_world :: world where
  "initial_world = \<lparr>heap = Map.empty, open_handles = {}, wire = []\<rparr>"

section \<open>Bytes of wider values\<close>

lemma ucast_signed_shift: "(ucast (signed_drop_bit 8 (reg::c_int)) :: byte) = ucast (drop_bit 8 reg)"
  by (rule bit_word_eqI) (auto simp add: bit_simps)

lemma ucast_low_byte_int: "(ucast ((reg::c_int) AND 0xFF) :: byte) = ucast reg"
proof -
  have m: "(0xFF :: c_int) = mask 8" by (simp add: mask_eq_exp_minus_1)
  show ?thesis
    unfolding m by (rule bit_word_eqI) (auto simp add: bit_simps)
qed

lemma ucast_low_byte_short: "(ucast ((crc::ushort) AND 0xFF) :: byte) = ucast crc"
proof -
  have m: "(0xFF :: ushort) = mask 8" by (simp add: mask_eq_exp_minus_1)
  show ?thesis
    unfolding m by (rule bit_word_eqI) (auto simp add: bit_simps)
qed

lemma uint_low_byte: "uint (ucast (w::'a::len word) :: byte) = uint w mod 256"
  by (simp add: unsigned_ucast_eq take_bit_eq_mod)

lemma uint_high_byte_int:
  "uint (ucast (drop_bit 8 (w::c_int)) :: byte) = uint w div 256 mod 256"
  by (simp add: unsigned_ucast_eq uint_div_distrib take_bit_eq_mod drop_bit_eq_div)

lemma uint_high_byte_short:
  "uint (ucast (drop_bit 8 (w::ushort)) :: byte) = uint w div 256 mod 256"
  by (simp add: unsigned_ucast_eq uint_div_distrib take_bit_eq_mod drop_bit_eq_div)

lemma split_two_bytes: "(x::int) div 256 mod 256 * 256 + x mod 256 = x mod 65536"
proof -
  have "x mod (256 * 256) = 256 * (x div 256 mod 256) + x mod 256"
    by (rule zmod_zmult2_eq) simp
  then show ?thesis by simp
qed

lemma big_endian_int:
  "uint (ucast (drop_bit 8 (reg::c_int)) :: byte) * 256 + uint (ucast reg :: byte) = uint reg mod 65536"
  by (simp only: uint_high_byte_int) (simp only: uint_low_byte split_two_bytes)

lemma little_endian_short:
  "uint (ucast (drop_bit 8 (crc::ushort)) :: byte) * 256 + uint (ucast crc :: byte) = uint crc"
proof -
  have "uint crc < 65536"
    using unsigned_less [of crc, where ?'a = int] by simp
  then have "uint crc mod 65536 = uint crc"
    by simp
  then show ?thesis
    by (simp only: uint_high_byte_short) (simp only: uint_low_byte split_two_bytes)
qed

section \<open>The request frame\<close>

lemma build_request_bytes:
  "build_request addr reg =
     [ucast addr, 0x03, ucast (drop_bit 8 reg), ucast reg, 0x00, 0x01,
      ucast (crc16 [ucast addr, 0x03, ucast (drop_bit 8 reg), ucast reg, 0x00, 0x01]),
      ucast (drop_bit 8 (crc16 [ucast addr, 0x03, ucast (drop_bit 8 reg), ucast reg, 0x00, 0x01]))]"
  by (simp add: build_request_def Let_def ucast_signed_shift ucast_low_byte_int
      ucast_low_byte_short)

text \<open>
  Claim C1. For every slave address and every register address the request has eight
  bytes, laid out as slave address, function code 0x03, register address high byte and
  low byte, register count high byte 0x00 and low byte 0x01, CRC low byte and CRC high
  byte, where the CRC is \<open>crc16\<close> of the first six bytes of the same frame. Read as
  numbers, bytes 2 and 3 are the low 16 bits of the register address (big-endian), bytes
  4 and 5 are the count 1, and bytes 6 and 7 are the CRC with the low byte first.
\<close>

theorem build_request_layout:
  "length (build_request addr reg) = 8 \<and>
   build_request addr reg =
     [ucast addr, 0x03, ucast (drop_bit 8 reg), ucast reg, 0x00, 0x01,
      ucast (crc16 (take 6 (build_request addr reg))),
      ucast (drop_bit 8 (crc16 (take 6 (build_request addr reg))))] \<and>
   uint (build_request addr reg ! 2) * 256 + uint (build_request addr reg ! 3) = uint reg mod 65536 \<and>
   uint (build_request addr reg ! 4) * 256 + uint (build_request addr reg ! 5) = 1 \<and>
   uint (build_request addr reg ! 7) * 256 + uint (build_request addr reg ! 6) =
     uint (crc16 (take 6 (build_request addr reg)))"
proof -
  let ?head = "[ucast addr, 0x03, ucast (drop_bit 8 reg), ucast reg, 0x00, 0x01] :: byte list"
  have bytes: "build_request addr reg =
      ?head @ [ucast (crc16 ?head), ucast (drop_bit 8 (crc16 ?head))]"
    by (simp add: build_request_bytes)
  have head: "take 6 (build_request addr reg) = ?head"
    by (simp add: bytes)
  have len: "length (build_request addr reg) = 8"
    by (simp add: bytes)
  have layout: "build_request addr reg =
      [ucast addr, 0x03, ucast (drop_bit 8 reg), ucast reg, 0x00, 0x01,
       ucast (crc16 (take 6 (build_request addr reg))),
       ucast (drop_bit 8 (crc16 (take 6 (build_request addr reg))))]"
    unfolding head by (simp add: bytes)
  have reg_field: "uint (build_request addr reg ! 2) * 256 + uint (build_request addr reg ! 3)
      = uint reg mod 65536"
    by (simp add: bytes big_endian_int)
  have count_field: "uint (build_request addr reg ! 4) * 256 + uint (build_request addr reg ! 5) = 1"
    by (simp add: bytes)
  have crc_field: "uint (build_request addr reg ! 7) * 256 + uint (build_request addr reg ! 6)
      = uint (crc16 (take 6 (build_request addr reg)))"
    unfolding head by (simp add: bytes little_endian_short)
  from len layout reg_field count_field crc_field show ?thesis
    by blast
qed

text \<open>The frame for slave 1, register 0: \<^verbatim>\<open>01 03 00 00 00 01 84 0A\<close>.\<close>

theorem build_request_layout_witness:
  "length (build_request 1 0) = 8 \<and>
   build_request 1 0 = [0x01, 0x03, 0x00, 0x00, 0x00, 0x01, 0x84, 0x0A] \<and>
   crc16 (take 6 (build_request 1 0)) = 0x0A84"
proof -
  have frame: "build_request 1 0 = [0x01, 0x03, 0x00, 0x00, 0x00, 0x01, 0x84, 0x0A]"
    by code_simp
  have len: "length (build_request 1 0) = 8"
    using build_request_layout [of 1 0] by (rule conjunct1)
  have "crc16 (take 6 (build_request 1 0)) = 0x0A84"
    by code_simp
  with len frame show ?thesis
    by blast
qed

section \<open>The CRC\<close>

lemma crc16_low_bit: "((c::ushort) AND 0x0001 \<noteq> 0) = (unat c mod 2 = 1)"
proof -
  have "(c AND 1 \<noteq> 0) = bit c 0"
    by (simp add: and_one_eq bit_0 odd_iff_mod_2_eq_one)
  also have "\<dots> = bit (unat c) 0"
    by (simp add: bit_unsigned_iff)
  also have "\<dots> = (unat c mod 2 = 1)"
    by (simp add: bit_0 odd_iff_mod_2_eq_one)
  finally show ?thesis .
qed

lemma crc16_shift_right: "unat (drop_bit (Suc 0) (c::ushort)) = unat c div 2"
  by (simp only: unat_drop_bit_eq) (simp add: drop_bit_eq_div)

lemma crc16_feedback: "unat ((c::ushort) XOR 0xA001) = unat c XOR 0xA001"
  by (simp add: unsigned_xor_eq)

lemma unat_crc16_bits: "unat (crc16_bits i c) = crc16_shift_spec i (unat c)"
  by (induction i arbitrary: c) (simp_all add: crc16_low_bit crc16_shift_right crc16_feedback)

lemma crc16_xor_byte: "unat ((c::ushort) XOR ucast (b::byte)) = unat c XOR unat b"
proof -
  have "unat b < 2 ^ 8"
    using unsigned_less [of b, where ?'a = nat] by simp
  then have "unat b < 2 ^ 16"
    by simp
  then have "take_bit 16 (unat b) = unat b"
    by (rule take_bit_nat_eq_self)
  then show ?thesis
    by (simp add: unsigned_xor_eq unsigned_ucast_eq)
qed

lemma unat_crc16_bytes:
  "unat (crc16_bytes bs c) = foldl (\<lambda>c b. crc16_shift_spec 8 (c XOR b)) (unat c) (map unat bs)"
  by (induction bs arbitrary: c) (simp_all add: unat_crc16_bits crc16_xor_byte)

lemma crc16_read_request: "crc16 [0x01, 0x03, 0x00, 0x00, 0x00, 0x01] = 0x0A84"
  by code_simp

text \<open>
  Claim C2, as stated, at its test vector: the CRC of \<^verbatim>\<open>01 03 00 00 00 01\<close> does not
  have low byte 0x0A and high byte 0xC5.
\<close>

theorem crc16_vector_counterexample:
  "\<not> ((ucast (crc16 [0x01, 0x03, 0x00, 0x00, 0x00, 0x01]) :: byte) = 0x0A \<and>
      (ucast (drop_bit 8 (crc16 [0x01, 0x03, 0x00, 0x00, 0x00, 0x01])) :: byte) = 0xC5)"
  by (simp add: crc16_read_request)

text \<open>
  Claim C2, amended. For every byte sequence \<open>crc16\<close> computes the CRC described in
  section 4.1 of the specification (initial value 0xFFFF, feedback 0xA001, eight right
  shifts per byte), which is the Modbus RTU CRC16; for \<^verbatim>\<open>01 03 00 00 00 01\<close> it
  returns 0x0A84, low byte 0x84 and high byte 0x0A, the trailer of the frame
  \<^verbatim>\<open>01 03 00 00 00 01 84 0A\<close>.
\<close>

theorem crc16_modbus:
  "unat (crc16 buffer) = crc16_spec (map unat buffer) \<and>
   crc16 [0x01, 0x03, 0x00, 0x00, 0x00, 0x01] = 0x0A84 \<and>
   (ucast (crc16 [0x01, 0x03, 0x00, 0x00, 0x00, 0x01]) :: byte) = 0x84 \<and>
   (ucast (drop_bit 8 (crc16 [0x01, 0x03, 0x00, 0x00, 0x00, 0x01])) :: byte) = 0x0A"
  by (simp add: crc16_read_request) (simp add: crc16_def crc16_spec_def unat_crc16_bytes)

section \<open>The response checks\<close>

lemma check_response_short:
  "length response < 7 \<Longrightarrow> check_response addr response = Inl IncompleteResponse"
  by (simp add: check_response_def)

lemma check_response_long:
  "7 \<le> length response \<Longrightarrow>
   check_response addr response =
     (if ucast (response ! 0) \<noteq> addr \<or> response ! 1 \<noteq> 0x03 then Inl UnexpectedEcho
      else if response ! 2 \<noteq> 2 then Inl UnexpectedByteCount
      else Inr (ucast (push_bit 8 (ucast (response ! 3) :: c_int) OR ucast (response ! 4))))"
  by (simp add: check_response_def)

lemma parse_register_response_long:
  "7 \<le> length response \<Longrightarrow>
   parse_register_response response addr =
     (if ucast (response ! 0) \<noteq> addr \<or> response ! 1 \<noteq> 0x03 then Inl UnexpectedEcho
      else if response ! 2 \<noteq> 2 then Inl UnexpectedByteCount
      else Inr (ucast (push_bit 8 (ucast (response ! 3) :: c_int) OR ucast (response ! 4))))"
  by (simp add: parse_register_response_def)

lemma decode_bits:
  "unat (ucast (push_bit 8 (ucast (hi::byte) :: c_int) OR ucast (lo::byte)) :: ushort) =
     push_bit 8 (unat hi) OR unat lo"
  by (rule bit_eqI) (auto simp add: bit_simps dest: bit_imp_le_length)

lemma decode_big_endian:
  "unat (ucast (push_bit 8 (ucast (hi::byte) :: c_int) OR ucast (lo::byte)) :: ushort) =
     unat hi * 256 + unat lo"
proof -
  have "push_bit 8 (unat hi) + unat lo = push_bit 8 (unat hi) OR unat lo"
  proof (rule disjunctive_add)
    fix n
    show "\<not> bit (push_bit 8 (unat hi)) n \<or> \<not> bit (unat lo) n"
      by (auto simp add: bit_simps dest: bit_imp_le_length)
  qed
  then have "push_bit 8 (unat hi) OR unat lo = unat hi * 256 + unat lo"
    by (simp add: push_bit_eq_mult)
  then show ?thesis
    by (simp only: decode_bits)
qed

text \<open>
  Claim C3. The outcome of the checks does not depend on the CRC field: two received
  responses of the same length that agree on every byte other than bytes 5 and 6 give
  the same outcome, the same error or the same decoded value. No check reads those two
  bytes.
\<close>

theorem check_response_ignores_crc:
  assumes len: "length r1 = length r2"
    and agree: "\<forall>i < length r1. i \<noteq> 5 \<and> i \<noteq> 6 \<longrightarrow> r1 ! i = r2 ! i"
  shows "check_response addr r1 = check_response addr r2"
proof (cases "length r1 < 7")
  case True
  with len show ?thesis
    by (simp add: check_response_short)
next
  case False
  then have long1: "7 \<le> length r1" by simp
  with len have long2: "7 \<le> length r2" by simp
  have same: "r1 ! i = r2 ! i" if "i < 5" for i
  proof -
    from that long1 have "i < length r1" "i \<noteq> 5" "i \<noteq> 6"
      by simp_all
    with agree show ?thesis
      by blast
  qed
  have "r1 ! 0 = r2 ! 0" "r1 ! 1 = r2 ! 1" "r1 ! 2 = r2 ! 2" "r1 ! 3 = r2 ! 3" "r1 ! 4 = r2 ! 4"
    by (simp_all add: same)
  then show ?thesis
    by (simp add: check_response_long [OF long1] check_response_long [OF long2])
qed

text \<open>
  A reply carrying 250 with its true CRC (0x38, 0x07) and the same reply with the CRC
  field overwritten are both decoded to 250.
\<close>

theorem check_response_ignores_crc_witness:
  "check_response 1 [0x01, 0x03, 0x02, 0x00, 0xFA, 0x38, 0x07] =
     check_response 1 [0x01, 0x03, 0x02, 0x00, 0xFA, 0xFF, 0xFF] \<and>
   check_response 1 [0x01, 0x03, 0x02, 0x00, 0xFA, 0xFF, 0xFF] = Inr 250 \<and>
   crc16 [0x01, 0x03, 0x02, 0x00, 0xFA] = 0x0738"
proof -
  let ?r1 = "[0x01, 0x03, 0x02, 0x00, 0xFA, 0x38, 0x07] :: byte list"
  let ?r2 = "[0x01, 0x03, 0x02, 0x00, 0xFA, 0xFF, 0xFF] :: byte list"
  have len: "length ?r1 = length ?r2"
    by simp
  have agree: "\<forall>i < length ?r1. i \<noteq> 5 \<and> i \<noteq> 6 \<longrightarrow> ?r1 ! i = ?r2 ! i"
    by (simp add: nth_Cons')
  have same: "check_response 1 ?r1 = check_response 1 ?r2"
    using len agree by (rule check_response_ignores_crc)
  have val: "check_response 1 ?r2 = Inr 250"
    by (simp add: check_response_def)
  have crc: "crc16 [0x01, 0x03, 0x02, 0x00, 0xFA] = 0x0738"
    by code_simp
  from same val crc show ?thesis
    by blast
qed

text \<open>
  Claim C4, as stated: the checks are those of \<open>parse_register_response\<close>, whose
  first step lets a response of 5 bytes through. At the received response
  \<^verbatim>\<open>01 03 02 00 FA\<close> for slave 1, which has 5 bytes, the right echo and byte count 2,
  that order of checks decodes 250; the source fails at its first check,
  \<^verbatim>\<open>total_read < 7\<close>.
\<close>

theorem check_response_order_counterexample:
  "check_response 1 [0x01, 0x03, 0x02, 0x00, 0xFA] = Inl IncompleteResponse \<and>
   parse_register_response [0x01, 0x03, 0x02, 0x00, 0xFA] 1 = Inr 250"
  by (simp add: check_response_def parse_register_response_def)

text \<open>
  Claim C4, amended. For every received response the checks run in this order, each
  failure shadowing the later ones: first the length check \<^verbatim>\<open>total_read >= 7\<close>, else
  \<open>IncompleteResponse\<close>; then the echo of address and function code, else
  \<open>UnexpectedEcho\<close>; then the byte count \<^verbatim>\<open>response[2] == 2\<close>, else
  \<open>UnexpectedByteCount\<close>; only then is the value decoded. No response yields
  \<open>ShortResponse\<close>: the test \<^verbatim>\<open>total_read < 5\<close> sits in the third check behind the
  test for 7 bytes and shares its failure branch with the byte count. On every response
  of at least 7 bytes the outcome is that of the order given in section 4.4.
\<close>

theorem check_response_order:
  "(check_response addr response = Inl IncompleteResponse \<longleftrightarrow> length response < 7) \<and>
   (check_response addr response = Inl UnexpectedEcho \<longleftrightarrow>
      7 \<le> length response \<and> (ucast (response ! 0) \<noteq> addr \<or> response ! 1 \<noteq> 0x03)) \<and>
   (check_response addr response = Inl UnexpectedByteCount \<longleftrightarrow>
      7 \<le> length response \<and> ucast (response ! 0) = addr \<and> response ! 1 = 0x03 \<and>
      response ! 2 \<noteq> 2) \<and>
   (check_response addr response = Inr v \<longleftrightarrow>
      7 \<le> length response \<and> ucast (response ! 0) = addr \<and> response ! 1 = 0x03 \<and>
      response ! 2 = 2 \<and>
      v = ucast (push_bit 8 (ucast (response ! 3) :: c_int) OR ucast (response ! 4))) \<and>
   check_response addr response \<noteq> Inl ShortResponse \<and>
   (7 \<le> length response \<longrightarrow>
      check_response addr response = parse_register_response response addr)"
proof (cases "length response < 7")
  case True
  then show ?thesis
    by (simp add: check_response_short)
next
  case False
  then have long: "7 \<le> length response" by simp
  from long have not_short: "\<not> length response < 7" by simp
  show ?thesis
    unfolding check_response_long [OF long] parse_register_response_long [OF long]
    using long not_short by auto
qed

text \<open>
  Four responses for slave 1, one for each outcome, and the agreement with the order of
  section 4.4 on a complete response.
\<close>

theorem check_response_order_witness:
  "check_response 1 [0x01, 0x03, 0x02] = Inl IncompleteResponse \<and>
   check_response 1 [0x01, 0x83, 0x02, 0x00, 0xFA, 0x38, 0x07] = Inl UnexpectedEcho \<and>
   check_response 1 [0x01, 0x03, 0x04, 0x00, 0xFA, 0x38, 0x07] = Inl UnexpectedByteCount \<and>
   check_response 1 [0x01, 0x03, 0x02, 0x00, 0xFA, 0x38, 0x07] = Inr 250 \<and>
   7 \<le> length [0x01, 0x03, 0x02, 0x00, 0xFA, 0x38, 0x07 :: byte] \<and>
   check_response 1 [0x01, 0x03, 0x02, 0x00, 0xFA, 0x38, 0x07] =
     parse_register_response [0x01, 0x03, 0x02, 0x00, 0xFA, 0x38, 0x07] 1"
proof -
  let ?full = "[0x01, 0x03, 0x02, 0x00, 0xFA, 0x38, 0x07] :: byte list"
  have incomplete: "check_response 1 [0x01, 0x03, 0x02] = Inl IncompleteResponse"
    using check_response_order [of 1 "[0x01, 0x03, 0x02]" 0] by simp
  have echo: "check_response 1 [0x01, 0x83, 0x02, 0x00, 0xFA, 0x38, 0x07] = Inl UnexpectedEcho"
    by (simp add: check_response_def)
  have count: "check_response 1 [0x01, 0x03, 0x04, 0x00, 0xFA, 0x38, 0x07] = Inl UnexpectedByteCount"
    by (simp add: check_response_def)
  have decoded: "check_response 1 ?full = Inr 250"
    by (simp add: check_response_def)
  have long: "7 \<le> length ?full"
    by simp
  have agree: "check_response 1 ?full = parse_register_response ?full 1"
    using check_response_order [of 1 ?full 250] long by blast
  from incomplete echo count decoded long agree show ?thesis
    by blast
qed




text \<open>
  Claim C6. The reply \<^verbatim>\<open>01 03 02 00 FA crc_lo crc_hi\<close> for slave 1 is decoded to the
  raw value \<^verbatim>\<open>(0x00 << 8) | 0xFA\<close> = 250, whatever the two CRC bytes are, and the
  temperature scale turns 250 into 25.0. For any data bytes the raw value is the
  big-endian number \<open>256 * response[3] + response[4]\<close>.
\<close>

theorem decode_round_trip:
  "check_response 1 [0x01, 0x03, 0x02, 0x00, 0xFA, crc_lo, crc_hi] = Inr 250 \<and>
   check_response 1 [0x01, 0x03, 0x02, 0x00, 0xFA, crc_lo, crc_hi] =
     Inr (ucast (push_bit 8 (ucast (0x00 :: byte) :: c_int) OR ucast (0xFA :: byte))) \<and>
   temperature_scale 250 = 25 \<and>
   (\<exists>raw. check_response 1 [0x01, 0x03, 0x02, hi, lo, crc_lo, crc_hi] = Inr raw \<and>
      unat raw = unat hi * 256 + unat lo)"
proof -
  have fixed: "check_response 1 [0x01, 0x03, 0x02, 0x00, 0xFA, crc_lo, crc_hi] = Inr 250"
    by (simp add: check_response_def)
  have shifted: "(ucast (push_bit 8 (ucast (0x00 :: byte) :: c_int) OR ucast (0xFA :: byte)) :: ushort) = 250"
    by simp
  have scaled: "temperature_scale 250 = 25"
    by (simp add: temperature_scale_def)
  have general: "check_response 1 [0x01, 0x03, 0x02, hi, lo, crc_lo, crc_hi] =
      Inr (ucast (push_bit 8 (ucast hi :: c_int) OR ucast lo))"
    by (simp add: check_response_def)
  from fixed shifted scaled general decode_big_endian [of hi lo] show ?thesis
    by auto
qed

text \<open>The reply with its true CRC bytes 0x38 and 0x07, and the reply carrying 0x1234.\<close>

theorem decode_round_trip_witness:
  "check_response 1 [0x01, 0x03, 0x02, 0x00, 0xFA, 0x38, 0x07] = Inr 250 \<and>
   temperature_scale 250 = 25 \<and>
   check_response 1 [0x01, 0x03, 0x02, 0x12, 0x34, 0x38, 0x07] = Inr 0x1234"
proof -
  have other: "check_response 1 [0x01, 0x03, 0x02, 0x12, 0x34, 0x38, 0x07] = Inr 0x1234"
    by (simp add: check_response_def)
  from decode_round_trip [of "0x38" "0x07" "0x12" "0x34"] other show ?thesis
    by simp
qed

section \<open>Disconnecting\<close>

lemma disconnect_null: "hal_modbus_disconnect w None = Inr w"
  by (simp add: hal_modbus_disconnect_def)

lemma disconnect_live:
  "heap w p = Some c \<Longrightarrow>
   hal_modbus_disconnect w (Some p) =
     Inr (w\<lparr>open_handles := (case hSerial c of Handle h \<Rightarrow> open_handles w - {h} | _ \<Rightarrow> open_handles w),
            heap := (heap w)(p := None)\<rparr>)"
  by (simp add: hal_modbus_disconnect_def)

lemma disconnect_freed: "heap w p = None \<Longrightarrow> hal_modbus_disconnect w (Some p) = Inl UseAfterFree"
  by (simp add: hal_modbus_disconnect_def)

lemma connect_example:
  "hal_modbus_connect initial_world ''COM3'' 9600 1 (Some 16) (Some 5) True =
    (Some 16, \<lparr>heap = Map.empty(16 \<mapsto> \<lparr>device = ''COM3'', baud = 9600, slave_id = 1, connected = 1, hSerial = Handle 5\<rparr>),
       open_handles = {5}, wire = []\<rparr>)"
  by (simp add: hal_modbus_connect_def initial_world_def)

text \<open>
  Claim C7, as stated, at the session that \<^verbatim>\<open>hal_modbus_connect\<close> returns for port handle 5
  at address 16: the first disconnect closes the port and frees the context, which gives
  back the initial world; the second disconnect through the same pointer reads
  \<^verbatim>\<open>ctx->device\<close> and \<^verbatim>\<open>ctx->hSerial\<close> of the freed context and frees it again.
\<close>

theorem disconnect_twice_counterexample:
  "fst (hal_modbus_connect initial_world ''COM3'' 9600 1 (Some 16) (Some 5) True) = Some 16 \<and>
   hal_modbus_disconnect (snd (hal_modbus_connect initial_world ''COM3'' 9600 1 (Some 16) (Some 5) True)) (Some 16)
     = Inr initial_world \<and>
   hal_modbus_disconnect initial_world (Some 16) = Inl UseAfterFree"
proof -
  have first: "hal_modbus_disconnect
      \<lparr>heap = Map.empty(16 \<mapsto> \<lparr>device = ''COM3'', baud = 9600, slave_id = 1, connected = 1, hSerial = Handle 5\<rparr>),
       open_handles = {5}, wire = []\<rparr> (Some 16) = Inr initial_world"
    by (simp add: hal_modbus_disconnect_def initial_world_def)
  have second: "hal_modbus_disconnect initial_world (Some 16) = Inl UseAfterFree"
    by (simp add: hal_modbus_disconnect_def initial_world_def)
  from first second show ?thesis
    by (simp add: connect_example)
qed

text \<open>
  Claim C7, amended. Disconnect on NULL does nothing, so it can be repeated. Disconnect
  on a live session closes its port handle, frees the session and touches no other
  session and no frame; after it the session no longer exists, and a second disconnect
  through the same pointer is a use of freed memory: disconnect is not idempotent on a
  session handle.
\<close>

theorem disconnect_releases_once:
  "hal_modbus_disconnect w None = Inr w \<and>
   (heap w p = Some c \<longrightarrow>
      (\<exists>w'. hal_modbus_disconnect w (Some p) = Inr w' \<and>
         heap w' p = None \<and>
         (\<forall>h. hSerial c = Handle h \<longrightarrow> h \<notin> open_handles w') \<and>
         (\<forall>q. q \<noteq> p \<longrightarrow> heap w' q = heap w q) \<and>
         wire w' = wire w \<and>
         hal_modbus_disconnect w' (Some p) = Inl UseAfterFree))"
proof -
  have freed: "hal_modbus_disconnect w' (Some p) = Inl UseAfterFree" if "heap w' p = None" for w'
    using that by (rule disconnect_freed)
  show ?thesis
    by (auto simp add: disconnect_null disconnect_live disconnect_freed split: handle.splits)
qed


text \<open>The session of the counterexample, disconnected once.\<close>

theorem disconnect_releases_once_witness:
  "heap (snd (hal_modbus_connect initial_world ''COM3'' 9600 1 (Some 16) (Some 5) True)) 16 =
     Some \<lparr>device = ''COM3'', baud = 9600, slave_id = 1, connected = 1, hSerial = Handle 5\<rparr> \<and>
   (\<exists>w'. hal_modbus_disconnect
            (snd (hal_modbus_connect initial_world ''COM3'' 9600 1 (Some 16) (Some 5) True)) (Some 16) = Inr w' \<and>
      heap w' 16 = None \<and> 5 \<notin> open_handles w' \<and>
      hal_modbus_disconnect w' (Some 16) = Inl UseAfterFree)"
proof -
  let ?w = "snd (hal_modbus_connect initial_world ''COM3'' 9600 1 (Some 16) (Some 5) True)"
  let ?c = "\<lparr>device = ''COM3'', baud = 9600, slave_id = 1, connected = 1, hSerial = Handle 5\<rparr>"
  have live: "heap ?w 16 = Some ?c"
    by (simp add: connect_example)
  with disconnect_releases_once [of ?w 16 ?c] show ?thesis
    by auto
qed

section \<open>Register access on a session\<close>



section \<open>Simulated register values\<close>

lemma rand_slot:
  assumes "0 \<le> r"
  shows "uint (word_of_int (r smod 4000 + 1000) :: ushort) = r mod 4000 + 1000"
    and "1000 \<le> unat (word_of_int (r smod 4000 + 1000) :: ushort)"
    and "unat (word_of_int (r smod 4000 + 1000) :: ushort) \<le> 4999"
proof -
  from assms have eq: "r smod 4000 = r mod 4000"
    by (simp add: smod_mod_positive)
  have lo: "0 \<le> r mod 4000" and hi: "r mod 4000 < 4000"
    by simp_all
  then have small: "r mod 4000 + 1000 < 2 ^ 16" and pos: "0 \<le> r mod 4000 + 1000"
    by simp_all
  have "uint (word_of_int (r mod 4000 + 1000) :: ushort) = (r mod 4000 + 1000) mod 2 ^ 16"
    unfolding uint_word_of_int take_bit_eq_mod by simp
  also have "\<dots> = r mod 4000 + 1000"
    using pos small by (rule mod_pos_pos_trivial)
  finally show u: "uint (word_of_int (r smod 4000 + 1000) :: ushort) = r mod 4000 + 1000"
    unfolding eq .
  then have "int (unat (word_of_int (r smod 4000 + 1000) :: ushort)) = r mod 4000 + 1000"
    by simp
  with lo hi show "1000 \<le> unat (word_of_int (r smod 4000 + 1000) :: ushort)"
    and "unat (word_of_int (r smod 4000 + 1000) :: ushort) \<le> 4999"
    by linarith+
qed

lemma fill_registers_result:
  "sint num \<le> int (length dest) \<Longrightarrow>
   \<exists>d'. fill_registers rnd i num dest = Inr d' \<and> length d' = length dest \<and>
     (\<forall>j. i \<le> j \<and> int j < sint num \<longrightarrow> d' ! j = word_of_int (rnd j smod 4000 + 1000)) \<and>
     (\<forall>j < length dest. j < i \<or> \<not> int j < sint num \<longrightarrow> d' ! j = dest ! j)"
proof (induction rnd i num dest rule: fill_registers.induct)
  case (1 rnd i num dest)
  show ?case
  proof (cases "int i < sint num")
    case False
    then show ?thesis
      by (subst fill_registers.simps) auto
  next
    case True
    with "1.prems" have inside: "i < length dest"
      by simp
    let ?dest = "dest[i := word_of_int (rnd i smod 4000 + 1000)]"
    from "1.prems" have "sint num \<le> int (length ?dest)"
      by simp
    from "1.IH" [OF True inside this] obtain d' where
      run: "fill_registers rnd (Suc i) num ?dest = Inr d'" and
      len: "length d' = length ?dest" and
      new: "\<forall>j. Suc i \<le> j \<and> int j < sint num \<longrightarrow> d' ! j = word_of_int (rnd j smod 4000 + 1000)" and
      old: "\<forall>j < length ?dest. j < Suc i \<or> \<not> int j < sint num \<longrightarrow> d' ! j = ?dest ! j"
      by blast
    have step: "fill_registers rnd i num dest = Inr d'"
      using True inside run by (subst fill_registers.simps) simp
    have at_i: "d' ! i = word_of_int (rnd i smod 4000 + 1000)"
      using old inside by simp
    have new': "\<forall>j. i \<le> j \<and> int j < sint num \<longrightarrow> d' ! j = word_of_int (rnd j smod 4000 + 1000)"
    proof (intro allI impI)
      fix j assume j: "i \<le> j \<and> int j < sint num"
      show "d' ! j = word_of_int (rnd j smod 4000 + 1000)"
      proof (cases "j = i")
        case True
        with at_i show ?thesis by simp
      next
        case False
        with j have "Suc i \<le> j \<and> int j < sint num" by simp
        with new show ?thesis by blast
      qed
    qed
    have old': "\<forall>j < length dest. j < i \<or> \<not> int j < sint num \<longrightarrow> d' ! j = dest ! j"
    proof (intro allI impI)
      fix j assume jl: "j < length dest" and j: "j < i \<or> \<not> int j < sint num"
      with True have ne: "j \<noteq> i" by auto
      from jl j have "j < length ?dest" "j < Suc i \<or> \<not> int j < sint num" by auto
      with old have "d' ! j = ?dest ! j" by blast
      with ne show "d' ! j = dest ! j" by simp
    qed
    from step len new' old' show ?thesis
      by simp
  qed
qed


text \<open>
  Claim C10. On an open session, with a destination array that has room for \<open>num\<close>
  registers, \<^verbatim>\<open>hal_modbus_read_registers\<close> returns 0, writes
  \<^verbatim>\<open>rand() % 4000 + 1000\<close> into each of the slots \<open>0 .. num - 1\<close>, a value from 1000 to
  4999, and leaves the other slots alone. \<^verbatim>\<open>rand()\<close> returns a value that is not negative.
\<close>

theorem read_registers_range:
  assumes live: "heap w p = Some c"
    and is_open: "connected c \<noteq> 0"
    and room: "sint num \<le> int (length d)"
    and rand: "\<forall>i. 0 \<le> rnd i"
  shows "\<exists>d'. hal_modbus_read_registers w (Some p) addr num (Some d) rnd = Inr (0, Some d') \<and>
           length d' = length d \<and>
           (\<forall>i. int i < sint num \<longrightarrow> 1000 \<le> unat (d' ! i) \<and> unat (d' ! i) \<le> 4999) \<and>
           (\<forall>i. int i < sint num \<longrightarrow> uint (d' ! i) = rnd i mod 4000 + 1000) \<and>
           (\<forall>i < length d. \<not> int i < sint num \<longrightarrow> d' ! i = d ! i)"
proof -
  from fill_registers_result [OF room, of rnd 0] obtain d' where
    run: "fill_registers rnd 0 num d = Inr d'" and
    len: "length d' = length d" and
    new: "\<forall>j. 0 \<le> j \<and> int j < sint num \<longrightarrow> d' ! j = word_of_int (rnd j smod 4000 + 1000)" and
    old: "\<forall>j < length d. j < 0 \<or> \<not> int j < sint num \<longrightarrow> d' ! j = d ! j"
    by blast
  have result: "hal_modbus_read_registers w (Some p) addr num (Some d) rnd = Inr (0, Some d')"
    using live is_open run by (simp add: hal_modbus_read_registers_def)
  have slot: "d' ! i = word_of_int (rnd i smod 4000 + 1000)" if "int i < sint num" for i
    using new that by simp
  have nonneg: "0 \<le> rnd i" for i
    using rand by simp
  have range: "\<forall>i. int i < sint num \<longrightarrow> 1000 \<le> unat (d' ! i) \<and> unat (d' ! i) \<le> 4999"
    using slot rand_slot(2,3) [OF nonneg] by simp
  have exact: "\<forall>i. int i < sint num \<longrightarrow> uint (d' ! i) = rnd i mod 4000 + 1000"
    using slot rand_slot(1) [OF nonneg] by simp
  have rest: "\<forall>i < length d. \<not> int i < sint num \<longrightarrow> d' ! i = d ! i"
    using old by simp
  from result len range exact rest show ?thesis
    by blast
qed

text \<open>
  Two registers into an array of three: \<^verbatim>\<open>rand()\<close> values 3999 and 8000 give the two
  ends of the range, 4999 and 1000.
\<close>

theorem read_registers_range_witness:
  "heap (snd (hal_modbus_connect initial_world ''COM3'' 9600 1 (Some 16) (Some 5) True)) 16 =
     Some \<lparr>device = ''COM3'', baud = 9600, slave_id = 1, connected = 1, hSerial = Handle 5\<rparr> \<and>
   sint (2 :: c_int) \<le> int (length [0, 0, 7 :: ushort]) \<and>
   (\<forall>i. 0 \<le> 3999 + 4001 * int i) \<and>
   hal_modbus_read_registers
     (snd (hal_modbus_connect initial_world ''COM3'' 9600 1 (Some 16) (Some 5) True))
     (Some 16) 0x10 2 (Some [0, 0, 7]) (\<lambda>i. 3999 + 4001 * int i) = Inr (0, Some [4999, 1000, 7])"
proof -
  let ?w = "snd (hal_modbus_connect initial_world ''COM3'' 9600 1 (Some 16) (Some 5) True)"
  let ?c = "\<lparr>device = ''COM3'', baud = 9600, slave_id = 1, connected = 1, hSerial = Handle 5\<rparr>"
  let ?rnd = "\<lambda>i. 3999 + 4001 * int i"
  have live: "heap ?w 16 = Some ?c"
    by (simp add: connect_example)
  have is_open: "connected ?c \<noteq> 0"
    by simp
  have room: "sint (2 :: c_int) \<le> int (length [0, 0, 7 :: ushort])"
    by simp
  have rand: "\<forall>i. 0 \<le> ?rnd i"
    by simp
  from read_registers_range [OF live is_open room rand, of "0x10"] obtain d' where
    result: "hal_modbus_read_registers ?w (Some 16) 0x10 2 (Some [0, 0, 7]) ?rnd = Inr (0, Some d')"
    by blast
  have filled: "fill_registers ?rnd 0 2 [0, 0, 7] = Inr [4999, 1000, 7]"
    by (simp add: fill_registers.simps)
  have "hal_modbus_read_registers ?w (Some 16) 0x10 2 (Some [0, 0, 7]) ?rnd =
      Inr (0, Some [4999, 1000, 7])"
    using live filled by (simp add: hal_modbus_read_registers_def)
  with result live room rand show ?thesis
    by blast
qed

section \<open>The reading loop\<close>

lemma read_loop_deadline:
  "\<not> loop_tick t k - start_tick t < 1000 \<Longrightarrow> read_loop t k r = Some r"
  by (subst read_loop.simps) simp

lemma read_loop_enough:
  assumes "length r < 7" and "loop_tick t k - start_tick t < 1000"
    and "read_file t k = Some bytes" and "7 \<le> length r + length bytes"
  shows "read_loop t k r = Some (r @ take (256 - length r) bytes)"
  using assms by (subst read_loop.simps) auto

lemma read_loop_idle:
  assumes "length r < 7" and "loop_tick t k - start_tick t < 1000"
    and "read_file t k = None \<or> read_file t k = Some []"
  shows "read_loop t k r = read_loop t (Suc k) r"
  using assms by (subst read_loop.simps) auto

lemma read_loop_partial:
  assumes "length r < 7" and "loop_tick t k - start_tick t < 1000"
    and "read_file t k = Some bytes" and "length r + length bytes < 7"
  shows "read_loop t k r = read_loop t (Suc k) (r @ bytes)"
  using assms by (subst read_loop.simps) auto

lemma read_loop_incomplete:
  assumes "k \<le> K"
    and "\<forall>i. k \<le> i \<and> i < K \<longrightarrow> loop_tick t i - start_tick t < 1000"
    and "\<not> loop_tick t K - start_tick t < 1000"
    and "length r + length (concat (map (\<lambda>i. case read_file t i of None \<Rightarrow> [] | Some bytes \<Rightarrow> bytes) [k..<K])) < 7"
  shows "read_loop t k r =
    Some (r @ concat (map (\<lambda>i. case read_file t i of None \<Rightarrow> [] | Some bytes \<Rightarrow> bytes) [k..<K]))"
  using assms
proof (induction "K - k" arbitrary: k r)
  case 0
  then have "k = K" by simp
  with 0 show ?case
    by (simp add: read_loop_deadline)
next
  case (Suc n)
  then have less: "k < K" by simp
  then have upt: "[k..<K] = k # [Suc k..<K]"
    by (rule upt_conv_Cons)
  from Suc.prems less have tick: "loop_tick t k - start_tick t < 1000"
    by simp
  from Suc.prems have short: "length r < 7"
    by simp
  from Suc.hyps less have n: "n = K - Suc k" by simp
  from less have le: "Suc k \<le> K" by simp
  from Suc.prems have later: "\<forall>i. Suc k \<le> i \<and> i < K \<longrightarrow> loop_tick t i - start_tick t < 1000"
    by simp
  show ?case
  proof (cases "read_file t k")
    case None
    with Suc.prems upt have rest: "length r + length (concat (map (\<lambda>i. case read_file t i of None \<Rightarrow> [] | Some bytes \<Rightarrow> bytes) [Suc k..<K])) < 7"
      by simp
    from None short tick have "read_loop t k r = read_loop t (Suc k) r"
      by (simp add: read_loop_idle)
    also from Suc.hyps(1) [OF n le later Suc.prems(3) rest]
    have "\<dots> = Some (r @ concat (map (\<lambda>i. case read_file t i of None \<Rightarrow> [] | Some bytes \<Rightarrow> bytes) [Suc k..<K]))" .
    finally show ?thesis
      using None upt by simp
  next
    case (Some bytes)
    with Suc.prems upt have rest: "length (r @ bytes) + length (concat (map (\<lambda>i. case read_file t i of None \<Rightarrow> [] | Some bytes \<Rightarrow> bytes) [Suc k..<K])) < 7"
      by simp
    then have part: "length r + length bytes < 7"
      by simp
    from Some short tick part have "read_loop t k r = read_loop t (Suc k) (r @ bytes)"
      by (simp add: read_loop_partial)
    also from Suc.hyps(1) [OF n le later Suc.prems(3) rest]
    have "\<dots> = Some ((r @ bytes) @ concat (map (\<lambda>i. case read_file t i of None \<Rightarrow> [] | Some bytes \<Rightarrow> bytes) [Suc k..<K]))" .
    finally show ?thesis
      using Some upt by simp
  qed
qed

lemma read_loop_complete:
  assumes "k \<le> K"
    and "\<forall>i. k \<le> i \<and> i < K \<longrightarrow> loop_tick t i - start_tick t < 1000"
    and "length r < 7"
    and "7 \<le> length r + length (concat (map (\<lambda>i. case read_file t i of None \<Rightarrow> [] | Some bytes \<Rightarrow> bytes) [k..<K]))"
  shows "\<exists>response. read_loop t k r = Some response \<and> 7 \<le> length response \<and> length response \<le> 256 \<and>
    response = take (length response) (r @ concat (map (\<lambda>i. case read_file t i of None \<Rightarrow> [] | Some bytes \<Rightarrow> bytes) [k..<K]))"
  using assms
proof (induction "K - k" arbitrary: k r)
  case 0
  then show ?case by simp
next
  case (Suc n)
  then have less: "k < K" by simp
  then have upt: "[k..<K] = k # [Suc k..<K]"
    by (rule upt_conv_Cons)
  from Suc.prems less have tick: "loop_tick t k - start_tick t < 1000"
    by simp
  note short = Suc.prems(3)
  from Suc.hyps less have n: "n = K - Suc k" by simp
  from less have le: "Suc k \<le> K" by simp
  from Suc.prems have later: "\<forall>i. Suc k \<le> i \<and> i < K \<longrightarrow> loop_tick t i - start_tick t < 1000"
    by simp
  let ?rest = "concat (map (\<lambda>i. case read_file t i of None \<Rightarrow> [] | Some bytes \<Rightarrow> bytes) [Suc k..<K])"
  show ?case
  proof (cases "read_file t k")
    case None
    with Suc.prems upt have rest: "7 \<le> length r + length ?rest"
      by simp
    from None short tick have "read_loop t k r = read_loop t (Suc k) r"
      by (simp add: read_loop_idle)
    with Suc.hyps(1) [OF n le later short rest] None upt show ?thesis
      by simp
  next
    case (Some bytes)
    show ?thesis
    proof (cases "7 \<le> length r + length bytes")
      case True
      with Some short tick have run: "read_loop t k r = Some (r @ take (256 - length r) bytes)"
        by (simp add: read_loop_enough)
      from True short have "7 \<le> length (r @ take (256 - length r) bytes)"
        by simp
      moreover have "length (r @ take (256 - length r) bytes) \<le> 256"
        using short by simp
      moreover have "r @ take (256 - length r) bytes =
          take (length (r @ take (256 - length r) bytes)) (r @ bytes @ ?rest)"
        by (auto simp add: min_def)
      ultimately show ?thesis
        using run Some upt by simp
    next
      case False
      then have part: "length r + length bytes < 7" by simp
      with Some short tick have run: "read_loop t k r = read_loop t (Suc k) (r @ bytes)"
        by (simp add: read_loop_partial)
      from part have short': "length (r @ bytes) < 7" by simp
      from Suc.prems Some upt have rest: "7 \<le> length (r @ bytes) + length ?rest"
        by simp
      from Suc.hyps(1) [OF n le later short' rest] run Some upt show ?thesis
        by simp
    qed
  qed
qed


lemma read_loop_returns:
  assumes before: "\<forall>i<K. loop_tick t i - start_tick t < 1000"
    and deadline: "\<not> loop_tick t K - start_tick t < 1000"
  shows "\<exists>response. read_loop t 0 [] = Some response \<and> length response \<le> 256 \<and>
     response = take (length response)
       (concat (map (\<lambda>i. case read_file t i of None \<Rightarrow> [] | Some bytes \<Rightarrow> bytes) [0..<K])) \<and>
     (length response < 7 \<longleftrightarrow>
       length (concat (map (\<lambda>i. case read_file t i of None \<Rightarrow> [] | Some bytes \<Rightarrow> bytes) [0..<K])) < 7) \<and>
     (length response < 7 \<longrightarrow>
       response = concat (map (\<lambda>i. case read_file t i of None \<Rightarrow> [] | Some bytes \<Rightarrow> bytes) [0..<K]))"
proof -
  let ?arrived = "concat (map (\<lambda>i. case read_file t i of None \<Rightarrow> [] | Some bytes \<Rightarrow> bytes) [0..<K])"
  have le: "0 \<le> K" by simp
  from before have ticks: "\<forall>i. 0 \<le> i \<and> i < K \<longrightarrow> loop_tick t i - start_tick t < 1000"
    by simp
  show ?thesis
  proof (cases "length ?arrived < 7")
    case True
    then have "length ([] :: byte list) + length ?arrived < 7" by simp
    from read_loop_incomplete [OF le ticks deadline this]
    have "read_loop t 0 [] = Some ?arrived" by simp
    with True show ?thesis by simp
  next
    case False
    then have enough: "7 \<le> length ([] :: byte list) + length ?arrived" by simp
    have empty: "length ([] :: byte list) < 7" by simp
    from read_loop_complete [OF le ticks empty enough] False show ?thesis
      by auto
  qed
qed

text \<open>
  Claim C9. The loop leaves at once when its test sees 1000 ms or more elapsed, and at
  once when a read brings the accumulated length to 7 bytes. For every behaviour of the
  port reads: if the loop test of round \<open>K\<close> is the first to see the deadline, the loop
  returns (so does the whole sensor read), with at most 256 bytes, a prefix of the bytes
  delivered by the reads of rounds 0 to \<open>K - 1\<close>; it returns fewer than 7 bytes exactly
  when fewer than 7 bytes were delivered before the deadline, then it returns all of
  them, the checks fail with \<open>IncompleteResponse\<close> and no value is decoded; with 7 bytes
  or more the failure is never \<open>IncompleteResponse\<close>. That the clock reaches the
  deadline is the assumption on the environment; the tick difference is computed modulo
  \<open>2^32\<close>.
\<close>

theorem read_loop_stops:
  "(\<not> loop_tick t k - start_tick t < 1000 \<longrightarrow> read_loop t k r = Some r) \<and>
   (length r < 7 \<and> loop_tick t k - start_tick t < 1000 \<and> read_file t k = Some bytes \<and>
      7 \<le> length r + length bytes \<longrightarrow>
      read_loop t k r = Some (r @ take (256 - length r) bytes)) \<and>
   ((\<forall>i<K. loop_tick t i - start_tick t < 1000) \<and> \<not> loop_tick t K - start_tick t < 1000 \<longrightarrow>
      (\<exists>response. read_loop t 0 [] = Some response \<and> length response \<le> 256 \<and>
         response = take (length response)
           (concat (map (\<lambda>i. case read_file t i of None \<Rightarrow> [] | Some bytes \<Rightarrow> bytes) [0..<K])) \<and>
         (length response < 7 \<longleftrightarrow>
           length (concat (map (\<lambda>i. case read_file t i of None \<Rightarrow> [] | Some bytes \<Rightarrow> bytes) [0..<K])) < 7) \<and>
         (length response < 7 \<longrightarrow>
           response = concat (map (\<lambda>i. case read_file t i of None \<Rightarrow> [] | Some bytes \<Rightarrow> bytes) [0..<K])) \<and>
         (check_response addr response = Inl IncompleteResponse \<longleftrightarrow> length response < 7) \<and>
         (length response < 7 \<longrightarrow> (\<forall>v. check_response addr response \<noteq> Inr v)) \<and>
         (port_opens t \<and> write_file t (build_request addr reg) = Some 8 \<longrightarrow>
            modbus_read_raw t addr reg = Some (check_response addr response))) \<and>
      modbus_read_raw t addr reg \<noteq> None)"
proof (intro conjI impI)
  assume "\<not> loop_tick t k - start_tick t < 1000"
  then show "read_loop t k r = Some r"
    by (rule read_loop_deadline)
next
  assume "length r < 7 \<and> loop_tick t k - start_tick t < 1000 \<and> read_file t k = Some bytes \<and>
      7 \<le> length r + length bytes"
  then show "read_loop t k r = Some (r @ take (256 - length r) bytes)"
    by (simp add: read_loop_enough)
next
  assume clock: "(\<forall>i<K. loop_tick t i - start_tick t < 1000) \<and> \<not> loop_tick t K - start_tick t < 1000"
  then obtain response where
    run: "read_loop t 0 [] = Some response" and
    cap: "length response \<le> 256" and
    pre: "response = take (length response)
           (concat (map (\<lambda>i. case read_file t i of None \<Rightarrow> [] | Some bytes \<Rightarrow> bytes) [0..<K]))" and
    short: "length response < 7 \<longleftrightarrow>
           length (concat (map (\<lambda>i. case read_file t i of None \<Rightarrow> [] | Some bytes \<Rightarrow> bytes) [0..<K])) < 7" and
    all: "length response < 7 \<longrightarrow>
           response = concat (map (\<lambda>i. case read_file t i of None \<Rightarrow> [] | Some bytes \<Rightarrow> bytes) [0..<K])"
    using read_loop_returns [of K t] by blast
  have fail: "check_response addr response = Inl IncompleteResponse \<longleftrightarrow> length response < 7"
  proof (cases "length response < 7")
    case True
    then show ?thesis by (simp add: check_response_short)
  next
    case False
    then have "7 \<le> length response" by simp
    from check_response_long [OF this] False show ?thesis by simp
  qed
  have none: "length response < 7 \<longrightarrow> (\<forall>v. check_response addr response \<noteq> Inr v)"
    by (simp add: check_response_short)
  have whole: "port_opens t \<and> write_file t (build_request addr reg) = Some 8 \<longrightarrow>
      modbus_read_raw t addr reg = Some (check_response addr response)"
    using run by (simp add: modbus_read_raw_def)
  from run cap pre short all fail none whole
  show "\<exists>response. read_loop t 0 [] = Some response \<and> length response \<le> 256 \<and>
         response = take (length response)
           (concat (map (\<lambda>i. case read_file t i of None \<Rightarrow> [] | Some bytes \<Rightarrow> bytes) [0..<K])) \<and>
         (length response < 7 \<longleftrightarrow>
           length (concat (map (\<lambda>i. case read_file t i of None \<Rightarrow> [] | Some bytes \<Rightarrow> bytes) [0..<K])) < 7) \<and>
         (length response < 7 \<longrightarrow>
           response = concat (map (\<lambda>i. case read_file t i of None \<Rightarrow> [] | Some bytes \<Rightarrow> bytes) [0..<K])) \<and>
         (check_response addr response = Inl IncompleteResponse \<longleftrightarrow> length response < 7) \<and>
         (length response < 7 \<longrightarrow> (\<forall>v. check_response addr response \<noteq> Inr v)) \<and>
         (port_opens t \<and> write_file t (build_request addr reg) = Some 8 \<longrightarrow>
            modbus_read_raw t addr reg = Some (check_response addr response))"
    by blast
  from run show "modbus_read_raw t addr reg \<noteq> None"
    by (simp add: modbus_read_raw_def)
qed

text \<open>
  A port whose tick counter starts at 0xFFFFFF00 and advances 400 ms per round (it wraps
  to 0x90 in round 1): three bytes arrive in round 1 and nothing more, the loop leaves in
  round 3 with those three bytes and the read fails with \<open>IncompleteResponse\<close>; with
  three bytes accumulated and four more read in round 1 the loop leaves with 7 bytes.
\<close>

theorem read_loop_stops_witness:
  "(0xFFFFFF00 + 400 * of_nat (1::nat) :: dword) = 0x90 \<and>
   (\<forall>i<3. (0xFFFFFF00 + 400 * of_nat i :: dword) - 0xFFFFFF00 < 1000) \<and>
   \<not> (0xFFFFFF00 + 400 * of_nat (3::nat) :: dword) - 0xFFFFFF00 < 1000 \<and>
   read_loop \<lparr>port_opens = True, write_file = (\<lambda>frame. Some (length frame)),
       start_tick = 0xFFFFFF00, loop_tick = (\<lambda>k. 0xFFFFFF00 + 400 * of_nat k),
       read_file = (\<lambda>k. if k = 1 then Some [0x01, 0x03, 0x02] else None)\<rparr> 0 [] = Some [0x01, 0x03, 0x02] \<and>
   modbus_read_raw \<lparr>port_opens = True, write_file = (\<lambda>frame. Some (length frame)),
       start_tick = 0xFFFFFF00, loop_tick = (\<lambda>k. 0xFFFFFF00 + 400 * of_nat k),
       read_file = (\<lambda>k. if k = 1 then Some [0x01, 0x03, 0x02] else None)\<rparr> 1 0 = Some (Inl IncompleteResponse) \<and>
   read_loop \<lparr>port_opens = True, write_file = (\<lambda>frame. Some (length frame)),
       start_tick = 0xFFFFFF00, loop_tick = (\<lambda>k. 0xFFFFFF00 + 400 * of_nat k),
       read_file = (\<lambda>k. if k = 1 then Some [0x01, 0x03, 0x02] else None)\<rparr> 3 [0x01, 0x03, 0x02] = Some [0x01, 0x03, 0x02] \<and>
   read_loop \<lparr>port_opens = True, write_file = (\<lambda>frame. Some (length frame)),
       start_tick = 0xFFFFFF00, loop_tick = (\<lambda>k. 0xFFFFFF00 + 400 * of_nat k),
       read_file = (\<lambda>k. Some [0x00, 0xFA, 0x38, 0x07])\<rparr> 1 [0x01, 0x03, 0x02] =
     Some [0x01, 0x03, 0x02, 0x00, 0xFA, 0x38, 0x07]"
proof -
  let ?slow = "\<lparr>port_opens = True, write_file = (\<lambda>frame. Some (length frame)),
       start_tick = 0xFFFFFF00, loop_tick = (\<lambda>k. 0xFFFFFF00 + 400 * of_nat k),
       read_file = (\<lambda>k. if k = 1 then Some [0x01, 0x03, 0x02 :: byte] else None)\<rparr>"
  let ?fast = "\<lparr>port_opens = True, write_file = (\<lambda>frame. Some (length frame)),
       start_tick = 0xFFFFFF00, loop_tick = (\<lambda>k. 0xFFFFFF00 + 400 * of_nat k),
       read_file = (\<lambda>k. Some [0x00, 0xFA, 0x38, 0x07 :: byte])\<rparr>"
  have wrap: "(0xFFFFFF00 + 400 * of_nat (1::nat) :: dword) = 0x90"
    by simp
  have before: "\<forall>i<3. (0xFFFFFF00 + 400 * of_nat i :: dword) - 0xFFFFFF00 < 1000"
    by (auto simp add: less_Suc_eq numeral_3_eq_3)
  have deadline: "\<not> (0xFFFFFF00 + 400 * of_nat (3::nat) :: dword) - 0xFFFFFF00 < 1000"
    by simp
  have arrived: "concat (map (\<lambda>i. case read_file ?slow i of None \<Rightarrow> [] | Some bytes \<Rightarrow> bytes) [0..<3])
      = [0x01, 0x03, 0x02]"
    by (simp add: upt_rec numeral_3_eq_3)
  have frame: "length (build_request 1 0) = 8"
    by (simp add: build_request_bytes)
  have sent: "port_opens ?slow \<and> write_file ?slow (build_request 1 0) = Some 8"
    by (simp add: frame)
  from before deadline read_loop_stops [of ?slow 3 "[0x01, 0x03, 0x02]" "[]" 3 1 0]
  obtain response where
    run: "read_loop ?slow 0 [] = Some response" and
    short: "length response < 7 \<longleftrightarrow>
           length (concat (map (\<lambda>i. case read_file ?slow i of None \<Rightarrow> [] | Some bytes \<Rightarrow> bytes) [0..<3])) < 7" and
    all: "length response < 7 \<longrightarrow>
           response = concat (map (\<lambda>i. case read_file ?slow i of None \<Rightarrow> [] | Some bytes \<Rightarrow> bytes) [0..<3])" and
    fail: "check_response 1 response = Inl IncompleteResponse \<longleftrightarrow> length response < 7" and
    whole: "port_opens ?slow \<and> write_file ?slow (build_request 1 0) = Some 8 \<longrightarrow>
            modbus_read_raw ?slow 1 0 = Some (check_response 1 response)"
    by auto
  from short all arrived have response: "response = [0x01, 0x03, 0x02]"
    by simp
  from run response have incomplete: "read_loop ?slow 0 [] = Some [0x01, 0x03, 0x02]"
    by simp
  from whole sent fail response have failed: "modbus_read_raw ?slow 1 0 = Some (Inl IncompleteResponse)"
    by simp
  have at_deadline: "read_loop ?slow 3 [0x01, 0x03, 0x02] = Some [0x01, 0x03, 0x02]"
    using read_loop_stops [of ?slow 3 "[0x01, 0x03, 0x02]" "[]" 3 1 0] deadline by simp
  have at_seven: "read_loop ?fast 1 [0x01, 0x03, 0x02] = Some [0x01, 0x03, 0x02, 0x00, 0xFA, 0x38, 0x07]"
    using read_loop_stops [of ?fast 1 "[0x01, 0x03, 0x02]" "[0x00, 0xFA, 0x38, 0x07]" 3 1 0] by simp
  from wrap before deadline incomplete failed at_deadline at_seven show ?thesis
    by blast
qed

end
